theory Spec2Isabelle
  imports Complex_Main "HOL-Library.List_Lexorder" "HOL-Library.Char_ord"
begin

section \<open>Range partitioning and admission control of the cluster query driver\<close>

text \<open>
  The development embeds \<^verbatim>\<open>data_mining/cluster_parallel_query.py\<close>: the streaming
  partitioner \<^verbatim>\<open>iter_id_ranges\<close> (with \<^verbatim>\<open>count_lines\<close>), the admission
  gate \<^verbatim>\<open>limit_jobs\<close> and the driver \<^verbatim>\<open>submit_subgroup_jobs\<close>.
  The copy \<^verbatim>\<open>data_mining_openalex/cluster_parallel_query.py\<close> has the same functions
  with other constants (a first margin of 50 instead of 150, a concurrency limit of 20
  instead of 180, another list of skipped indices); the constants here are those of
  \<^verbatim>\<open>data_mining\<close>.
\<close>

subsection \<open>Errors\<close>

text \<open>
  The Python exceptions the modelled code can raise: \<^verbatim>\<open>row[0]\<close> and
  \<^verbatim>\<open>split()[-1]\<close> on an empty list, integer division by zero, \<^verbatim>\<open>next(reader)\<close>
  at the end of the input (its \<^verbatim>\<open>StopIteration\<close> leaves a generator as
  \<^verbatim>\<open>RuntimeError\<close>), the read of a variable the loop never bound, and
  \<^verbatim>\<open>decode()\<close> on bytes that are not UTF-8.
\<close>

datatype error =
    IndexError
  | ZeroDivisionError
  | RuntimeError
  | UnboundLocalError
  | UnicodeDecodeError

subsection \<open>The identifier file\<close>

text \<open>
  A row is what \<^verbatim>\<open>csv.reader\<close> returns for one record: the list of its fields
  (the empty list for a blank line). The program looks at the identifier file in two ways,
  and the model of the file is what each of them sees:
  \<^item> \<open>newlines\<close>: the number of newline characters of the file, which is what
    \<^verbatim>\<open>wc -l\<close> prints;
  \<^item> \<open>records\<close>: the records \<^verbatim>\<open>csv.reader\<close> reads from it, the header first.

  For a file of \<open>m\<close> records, one per line, \<open>newlines\<close> is \<open>m\<close> when the last line
  ends with a newline, as \<^verbatim>\<open>csv.writer\<close> leaves it, and \<open>m - 1\<close> when it does not.
\<close>

type_synonym row = "string list"

record id_file =
  newlines :: nat
  records :: "row list"

text \<open>\<^verbatim>\<open>count_lines\<close>: the number printed by \<^verbatim>\<open>wc -l\<close>, minus one for the header.\<close>

definition count_lines :: "id_file \<Rightarrow> int" where
  "count_lines file_path = int (newlines file_path) - 1"

text \<open>\<^verbatim>\<open>row[0]\<close>: raises on a row without fields.\<close>

fun item0 :: "row \<Rightarrow> error + string" where
  "item0 [] = Inl IndexError"
| "item0 (x # _) = Inr x"

text \<open>
  Python truthiness of \<^verbatim>\<open>first_id\<close>, which is \<^verbatim>\<open>None\<close> or a string:
  \<^verbatim>\<open>None\<close> and the empty string are false.
\<close>

fun truthy :: "string option \<Rightarrow> bool" where
  "truthy None = False"
| "truthy (Some s) = (s \<noteq> [])"

subsection \<open>The generator \<^verbatim>\<open>iter_id_ranges\<close>\<close>

text \<open>
  A generator run is the list of the pairs it yielded, and the exception that ended it, if
  one did. \<open>yield p g\<close> is a run that yields \<open>p\<close> and goes on as \<open>g\<close>.
\<close>

type_synonym id_range = "string \<times> string"

type_synonym ranges = "id_range list \<times> error option"

definition yield :: "id_range \<Rightarrow> ranges \<Rightarrow> ranges" where
  "yield p g = (p # fst g, snd g)"

definition raise :: "error \<Rightarrow> ranges" where
  "raise e = ([], Some e)"

text \<open>
  The \<^verbatim>\<open>for row in reader\<close> loop and the statement after it. The state is
  \<^verbatim>\<open>first_id\<close>, \<^verbatim>\<open>count\<close> and the loop variable \<^verbatim>\<open>row\<close>, which is
  unbound until the first iteration and keeps the last row after the loop.
  \<^verbatim>\<open>
        for row in reader:
            if not first_id:
                first_id = row[0]
            count += 1
            if count == chunk_size:
                yield first_id, row[0]
                first_id, count = None, 0
        if first_id:
            yield first_id, row[0]
  \<close>
\<close>

fun iter_rows :: "int \<Rightarrow> string option \<Rightarrow> int \<Rightarrow> row option \<Rightarrow> row list \<Rightarrow> ranges" where
  "iter_rows chunk_size first_id count row [] =
     (case first_id of
        None \<Rightarrow> ([], None)
      | Some f \<Rightarrow>
          if truthy (Some f) then
            (case row of
               None \<Rightarrow> raise UnboundLocalError
             | Some r \<Rightarrow> (case item0 r of Inl e \<Rightarrow> raise e | Inr x \<Rightarrow> yield (f, x) ([], None)))
          else ([], None))"
| "iter_rows chunk_size first_id count _ (row # reader) =
     (case (case first_id of
              None \<Rightarrow> item0 row
            | Some f \<Rightarrow> if truthy (Some f) then Inr f else item0 row) of
        Inl e \<Rightarrow> raise e
      | Inr f \<Rightarrow>
          if count + 1 = chunk_size then
            (case item0 row of
               Inl e \<Rightarrow> raise e
             | Inr x \<Rightarrow> yield (f, x) (iter_rows chunk_size None 0 (Some row) reader))
          else iter_rows chunk_size (Some f) (count + 1) (Some row) reader)"

text \<open>
  \<^verbatim>\<open>iter_id_ranges\<close>: the chunk size is computed with Python's floor division, which
  is \<open>div\<close> on \<open>int\<close>; \<^verbatim>\<open>next(reader)\<close> skips the header.
\<close>

definition iter_id_ranges :: "id_file \<Rightarrow> int \<Rightarrow> ranges" where
  "iter_id_ranges file_path num_subgroups =
     (let total_lines = count_lines file_path in
      if num_subgroups = 0 then raise ZeroDivisionError
      else
        let chunk_size = (total_lines + num_subgroups - 1) div num_subgroups in
        case records file_path of
          [] \<Rightarrow> raise RuntimeError
        | header # reader \<Rightarrow> iter_rows chunk_size None 0 None reader)"

subsection \<open>Notions used to state the properties of the partitioner\<close>

text \<open>
  The definitions of this subsection are not code of the program: they say what a
  partition of the rows is, so that the generator can be compared with it.
\<close>

text \<open>The identifier of a row (the empty string for a row without fields).\<close>

fun row_id :: "row \<Rightarrow> string" where
  "row_id [] = []"
| "row_id (x # _) = x"

text \<open>A data row carries an identifier when its first field exists and is not empty.\<close>

fun has_id :: "row \<Rightarrow> bool" where
  "has_id [] = False"
| "has_id (x # _) = (x \<noteq> [])"

text \<open>
  An identifier file is newline-terminated when \<^verbatim>\<open>wc -l\<close> counts one newline for
  each of its records: every record is one line and the last line ends with a newline.
\<close>

definition newline_terminated :: "id_file \<Rightarrow> bool" where
  "newline_terminated f = (newlines f = length (records f))"

text \<open>The chunk size the program computes for a file and a target count.\<close>

definition code_chunk_size :: "id_file \<Rightarrow> int \<Rightarrow> nat" where
  "code_chunk_size f k = nat ((count_lines f + k - 1) div k)"

text \<open>The nominal chunk size \<open>\<lceil>n / k\<rceil>\<close>.\<close>

definition nominal_chunk_size :: "nat \<Rightarrow> int \<Rightarrow> nat" where
  "nominal_chunk_size n k = nat \<lceil>real n / real_of_int k\<rceil>"

text \<open>
  The split of a list into contiguous chunks of \<open>c\<close> elements, the last one holding the
  remainder.
\<close>

function chunked :: "nat \<Rightarrow> 'a list \<Rightarrow> 'a list list" where
  "chunked c xs = (if c = 0 \<or> xs = [] then [] else take c xs # chunked c (drop c xs))"
  by pat_completeness auto
termination
  by (relation "measure (\<lambda>(c, xs). length xs)") auto

declare chunked.simps [simp del]

text \<open>The first and the last identifier of a chunk.\<close>

definition chunk_ends :: "row list \<Rightarrow> id_range" where
  "chunk_ends ch = (row_id (hd ch), row_id (last ch))"

text \<open>The boundaries of a sequence of pairs, in the order they are yielded.\<close>

definition boundaries :: "id_range list \<Rightarrow> string list" where
  "boundaries ps = concat (map (\<lambda>(a, b). [a, b]) ps)"

text \<open>
  What the generator yields for one chunk when identifiers may be empty: the minimum is the
  first non-empty identifier of the chunk (the empty string when there is none), and a
  chunk shorter than the chunk size \<open>c\<close> without a non-empty identifier yields nothing.
\<close>

definition chunk_min :: "row list \<Rightarrow> string" where
  "chunk_min ch = (case find (\<lambda>s. s \<noteq> []) (map row_id ch) of None \<Rightarrow> [] | Some f \<Rightarrow> f)"

definition chunk_bounds :: "nat \<Rightarrow> row list \<Rightarrow> id_range list" where
  "chunk_bounds c ch =
     (if length ch = c then [(chunk_min ch, row_id (last ch))]
      else if chunk_min ch = [] then []
      else [(chunk_min ch, row_id (last ch))])"

text \<open>The value of \<^verbatim>\<open>first_id\<close> after the rows of a chunk that is still open.\<close>

fun pick :: "string option \<Rightarrow> row list \<Rightarrow> string option" where
  "pick fo [] = fo"
| "pick fo (r # rs) = pick (if truthy fo then fo else Some (row_id r)) rs"

fun str_of :: "string option \<Rightarrow> string" where
  "str_of None = []"
| "str_of (Some s) = s"

text \<open>
  The number of identifiers of a list that lie in an inclusive range, which is what a
  worker selects with \<^verbatim>\<open>BETWEEN min_id AND max_id\<close>.
\<close>

definition covered :: "string list \<Rightarrow> id_range \<Rightarrow> nat" where
  "covered ids p = length (filter (\<lambda>x. fst p \<le> x \<and> x \<le> snd p) ids)"

subsection \<open>The cluster and the database\<close>

text \<open>
  The scheduler and the database are outside the program. A \<open>world\<close> fixes what each
  external call answers: the calls of a run are numbered in the order they are made, and the
  answer to call number \<open>t\<close> may depend on \<open>t\<close> and on the argument of the call, so that
  every sequence of probe responses is some world.
  \<^item> \<open>squeue w t job\<close>: \<^verbatim>\<open>squeue -h -j job\<close> prints something (the job is pending or
    running);
  \<^item> \<open>free_connections_exceed w t threshold\<close>: the result of the SQL probe;
  \<^item> \<open>sbatch w t script_path\<close>: what \<^verbatim>\<open>submit.stdout.decode()\<close> gives for the
    standard output of \<^verbatim>\<open>sbatch script_path\<close>: the decoded text, or
    \<open>UnicodeDecodeError\<close> when the bytes are not UTF-8.

  A Python \<^verbatim>\<open>str\<close> that the program takes apart (the decoded output, and the job
  handles cut from it) is the list of its code points. \<open>code_points\<close> writes such a text
  with an ASCII literal.
\<close>

type_synonym pystr = "nat list"

definition code_points :: "string \<Rightarrow> pystr" where
  "code_points s = map of_char s"

record world =
  squeue :: "nat \<Rightarrow> pystr \<Rightarrow> bool"
  free_connections_exceed :: "nat \<Rightarrow> int \<Rightarrow> bool"
  sbatch :: "nat \<Rightarrow> string \<Rightarrow> error + pystr"

text \<open>
  What a run does to the outside is kept as a trace. The state threaded through the code is
  the number of external calls made so far and the trace. The progress messages printed by
  the code are not part of the trace.
\<close>

datatype event =
    CallSqueue pystr
  | CallFreeConnections int
  | Sleep nat
  | WriteScript string
  | CallSbatch string

type_synonym state = "nat \<times> event list"

definition sleep :: "nat \<Rightarrow> state \<Rightarrow> state" where
  "sleep seconds s = (fst s, snd s @ [Sleep seconds])"

subsection \<open>The admission gate \<^verbatim>\<open>limit_jobs\<close>\<close>

text \<open>
  The \<^verbatim>\<open>for job in job_queue\<close> loop: one \<^verbatim>\<open>squeue\<close> call per handle, in order; a
  handle is kept when the call prints something.
\<close>

fun still_running :: "world \<Rightarrow> nat \<Rightarrow> pystr list \<Rightarrow> pystr list" where
  "still_running w t [] = []"
| "still_running w t (job # job_queue) =
     (if squeue w t job then job # still_running w (Suc t) job_queue
      else still_running w (Suc t) job_queue)"

definition poll_queue :: "world \<Rightarrow> state \<Rightarrow> pystr list \<Rightarrow> pystr list \<times> state" where
  "poll_queue w s job_queue =
     (still_running w (fst s) job_queue,
      (fst s + length job_queue, snd s @ map CallSqueue job_queue))"

text \<open>
  \<^verbatim>\<open>cond and free_connections_exceed(threshold)\<close>: Python's \<^verbatim>\<open>and\<close> calls the database
  only when \<open>cond\<close> holds.
\<close>

definition and_free_connections_exceed :: "world \<Rightarrow> bool \<Rightarrow> int \<Rightarrow> state \<Rightarrow> bool \<times> state" where
  "and_free_connections_exceed w cond threshold s =
     (if cond then (free_connections_exceed w (fst s) threshold,
                    (Suc (fst s), snd s @ [CallFreeConnections threshold]))
      else (False, s))"

text \<open>
  \<^verbatim>\<open>limit_jobs\<close>: the \<^verbatim>\<open>while True\<close> loop may run forever, so the function is partial;
  \<open>None\<close> is a call that never returns. The list is updated in place and returned; the only
  caller rebinds its variable to the result, so the model returns the pruned list.
  \<^verbatim>\<open>
        n_running = len(job_queue)
        if n_running < max_jobs_running - 150:
            time.sleep(5); return job_queue
        if n_running < max_jobs_running - 20 and free_connections_exceed(30):
            time.sleep(5); return job_queue
        if n_running < max_jobs_running and free_connections_exceed(15):
            time.sleep(15); return job_queue
        time.sleep(30)
  \<close>
\<close>

partial_function (option) limit_jobs ::
  "world \<Rightarrow> state \<Rightarrow> pystr list \<Rightarrow> int \<Rightarrow> (pystr list \<times> state) option" where
  "limit_jobs w s job_queue max_jobs_running =
     (case poll_queue w s job_queue of (job_queue', s1) \<Rightarrow>
        let n_running = int (length job_queue') in
        if n_running < max_jobs_running - 150 then Some (job_queue', sleep 5 s1)
        else
          case and_free_connections_exceed w (n_running < max_jobs_running - 20) 30 s1 of
            (cond2, s2) \<Rightarrow>
              if cond2 then Some (job_queue', sleep 5 s2)
              else
                case and_free_connections_exceed w (n_running < max_jobs_running) 15 s2 of
                  (cond3, s3) \<Rightarrow>
                    if cond3 then Some (job_queue', sleep 15 s3)
                    else limit_jobs w (sleep 30 s3) job_queue' max_jobs_running)"

subsection \<open>The driver \<^verbatim>\<open>submit_subgroup_jobs\<close>\<close>

definition NUM_SUBGROUPS :: int where
  "NUM_SUBGROUPS = 10000"

definition JOB_SCRIPT_DIR :: string where
  "JOB_SCRIPT_DIR = ''data_mining/queries/parallel_queries/slurm_query_jobs''"

definition MAX_JOBS_RUNNING :: int where
  "MAX_JOBS_RUNNING = 180"

text \<open>The format \<^verbatim>\<open>{subgroup_idx:03d}\<close> of a non-negative index.\<close>

function decimal :: "nat \<Rightarrow> string" where
  "decimal n = (if n < 10 then [''0123456789'' ! n]
                else decimal (n div 10) @ [''0123456789'' ! (n mod 10)])"
  by pat_completeness auto
termination
  by (relation "measure id") auto

declare decimal.simps [simp del]

definition format_03d :: "nat \<Rightarrow> string" where
  "format_03d n = replicate (3 - length (decimal n)) CHR ''0'' @ decimal n"

text \<open>
  \<^verbatim>\<open>create_query_job\<close> writes the SBATCH script of a subgroup and returns its path. The
  model keeps the path and records the write; the text of the script is not modelled.
\<close>

definition create_query_job :: "nat \<Rightarrow> string" where
  "create_query_job subgroup_idx =
     JOB_SCRIPT_DIR @ ''/'' @ (''works_q_'' @ format_03d subgroup_idx) @ ''.sbatch''"

text \<open>
  \<^verbatim>\<open>.strip().split()[-1]\<close> on the decoded output. Whitespace is what
  \<^verbatim>\<open>str.isspace\<close> accepts: the code points \<^verbatim>\<open>U+0009\<close> to \<^verbatim>\<open>U+000D\<close>,
  \<^verbatim>\<open>U+001C\<close> to \<^verbatim>\<open>U+0020\<close>, \<^verbatim>\<open>U+0085\<close>, \<^verbatim>\<open>U+00A0\<close>,
  \<^verbatim>\<open>U+1680\<close>, \<^verbatim>\<open>U+2000\<close> to \<^verbatim>\<open>U+200A\<close>, \<^verbatim>\<open>U+2028\<close>,
  \<^verbatim>\<open>U+2029\<close>, \<^verbatim>\<open>U+202F\<close>, \<^verbatim>\<open>U+205F\<close> and \<^verbatim>\<open>U+3000\<close>.
\<close>

definition is_space :: "nat \<Rightarrow> bool" where
  "is_space c =
     (c \<in> set [0x09, 0x0A, 0x0B, 0x0C, 0x0D, 0x1C, 0x1D, 0x1E, 0x1F, 0x20, 0x85, 0xA0,
                 0x1680, 0x2000, 0x2001, 0x2002, 0x2003, 0x2004, 0x2005, 0x2006, 0x2007,
                 0x2008, 0x2009, 0x200A, 0x2028, 0x2029, 0x202F, 0x205F, 0x3000])"

definition strip :: "pystr \<Rightarrow> pystr" where
  "strip s = rev (dropWhile is_space (rev (dropWhile is_space s)))"

fun split_from :: "pystr \<Rightarrow> pystr \<Rightarrow> pystr list" where
  "split_from tok [] = (if tok = [] then [] else [tok])"
| "split_from tok (c # cs) =
     (if is_space c then (if tok = [] then split_from [] cs else tok # split_from [] cs)
      else split_from (tok @ [c]) cs)"

definition str_split :: "pystr \<Rightarrow> pystr list" where
  "str_split s = split_from [] s"

definition parse_job_id :: "pystr \<Rightarrow> error + pystr" where
  "parse_job_id stdout =
     (case str_split (strip stdout) of [] \<Rightarrow> Inl IndexError | tokens \<Rightarrow> Inr (last tokens))"

text \<open>
  The body of \<^verbatim>\<open>for idx, (min_id, max_id) in enumerate(iter_id_ranges(...), start=1)\<close>,
  over the pairs the generator yields.
  \<^verbatim>\<open>
        if idx < 5556:
            continue
        script_path = create_query_job(...)
        job_queue = limit_jobs(job_queue, MAX_JOBS_RUNNING)
        submit = subprocess.run(["sbatch", script_path], stdout=subprocess.PIPE)
        job_id = submit.stdout.decode().strip().split()[-1]
        job_queue.append(job_id)
  \<close>
  The result is \<open>None\<close> when a call of the gate never returns, and otherwise the final
  \<^verbatim>\<open>job_queue\<close> or the exception that ended the run.
\<close>

fun submit_loop ::
  "world \<Rightarrow> state \<Rightarrow> nat \<Rightarrow> id_range list \<Rightarrow> pystr list \<Rightarrow> ((error + pystr list) \<times> state) option" where
  "submit_loop w s idx [] job_queue = Some (Inr job_queue, s)"
| "submit_loop w s idx ((min_id, max_id) # ranges) job_queue =
     (if idx < 5556 then submit_loop w s (Suc idx) ranges job_queue
      else
        let script_path = create_query_job idx;
            s1 = (fst s, snd s @ [WriteScript script_path])
        in case limit_jobs w s1 job_queue MAX_JOBS_RUNNING of
             None \<Rightarrow> None
           | Some (job_queue', s2) \<Rightarrow>
               let submit = sbatch w (fst s2) script_path;
                   s3 = (Suc (fst s2), snd s2 @ [CallSbatch script_path])
               in case submit of
                    Inl e \<Rightarrow> Some (Inl e, s3)
                  | Inr stdout \<Rightarrow>
                      (case parse_job_id stdout of
                         Inl e \<Rightarrow> Some (Inl e, s3)
                       | Inr job_id \<Rightarrow> submit_loop w s3 (Suc idx) ranges (job_queue' @ [job_id])))"

text \<open>
  \<^verbatim>\<open>submit_subgroup_jobs\<close>: the generator is consumed lazily, so an exception of the
  generator ends the run after the pairs yielded before it have been processed.
\<close>

definition submit_subgroup_jobs ::
  "world \<Rightarrow> id_file \<Rightarrow> int \<Rightarrow> ((error + pystr list) \<times> state) option" where
  "submit_subgroup_jobs w index_csv num_subgroups =
     (case iter_id_ranges index_csv num_subgroups of
        (ranges, raised) \<Rightarrow>
          (case submit_loop w (0, []) 1 ranges [] of
             None \<Rightarrow> None
           | Some (Inl e, s) \<Rightarrow> Some (Inl e, s)
           | Some (Inr job_queue, s) \<Rightarrow>
               (case raised of
                  None \<Rightarrow> Some (Inr job_queue, s)
                | Some e \<Rightarrow> Some (Inl e, s))))"

text \<open>
  The module body: \<^verbatim>\<open>job_ids = submit_subgroup_jobs(...)\<close> and the number printed by
  \<^verbatim>\<open>print(f"Submitted {len(job_ids)} jobs.")\<close>.
\<close>

definition reported_count :: "world \<Rightarrow> id_file \<Rightarrow> (error + nat) option" where
  "reported_count w index_file =
     map_option (\<lambda>(r, s). map_sum id length r) (submit_subgroup_jobs w index_file NUM_SUBGROUPS)"

subsection \<open>Notions used to state the properties of the gate\<close>

text \<open>
  The release conditions of one polling round, in the order the code tests them, for a
  call that starts the round in state \<open>s\<close>: \<open>n\<close> is the live in-flight count after pruning,
  and the second database probe is call number \<open>t1 + 1\<close> when the first one was made.
\<close>

definition releases :: "world \<Rightarrow> state \<Rightarrow> pystr list \<Rightarrow> int \<Rightarrow> bool" where
  "releases w s job_queue max_jobs_running =
     (let n = int (length (still_running w (fst s) job_queue));
          t1 = fst s + length job_queue
      in n < max_jobs_running - 150 \<or>
         (n < max_jobs_running - 20 \<and> free_connections_exceed w t1 30) \<or>
         (n < max_jobs_running \<and> free_connections_exceed w (if n < max_jobs_running - 20 then Suc t1 else t1) 15))"




definition is_db_probe :: "event \<Rightarrow> bool" where
  "is_db_probe e = (case e of CallFreeConnections _ \<Rightarrow> True | _ \<Rightarrow> False)"

definition is_submission :: "event \<Rightarrow> bool" where
  "is_submission e = (case e of CallSbatch _ \<Rightarrow> True | _ \<Rightarrow> False)"

subsection \<open>Example inputs\<close>

text \<open>
  The 95 sorted identifiers \<^verbatim>\<open>W01\<close> to \<^verbatim>\<open>W95\<close> and their identifier file, every
  line ended by a newline.
\<close>

definition work_id :: "nat \<Rightarrow> string" where
  "work_id n = [CHR ''W'', ''0123456789'' ! (n div 10), ''0123456789'' ! (n mod 10)]"

definition ids95 :: "string list" where
  "ids95 = map work_id [1..<96]"

definition file95 :: id_file where
  "file95 = \<lparr>newlines = 96, records = [''id''] # map (\<lambda>i. [i]) ids95\<rparr>"

text \<open>
  An index file with 5557 identifiers \<^verbatim>\<open>W0001\<close> to \<^verbatim>\<open>W5557\<close>, every line ended
  by a newline, so that with \<open>NUM_SUBGROUPS\<close> partitions of one identifier each the driver
  reaches the indices it does not skip; and a cluster on which every job has left the queue
  before the next poll, with a database that always has free connections.
\<close>

definition index5557 :: id_file where
  "index5557 =
     \<lparr>newlines = 5558,
      records = [''id''] #
        map (\<lambda>n. [CHR ''W'' # replicate (4 - length (decimal n)) CHR ''0'' @ decimal n]) [1..<5558]\<rparr>"

definition idle_cluster :: world where
  "idle_cluster =
     \<lparr>squeue = \<lambda>t job. False,
      free_connections_exceed = \<lambda>t threshold. True,
      sbatch = \<lambda>t script_path.
        if t = 0 then Inr (code_points ''Submitted batch job 101'')
        else Inr (code_points ''Submitted batch job 102'')\<rparr>"

section \<open>Theorems\<close>

subsection \<open>The partitioner\<close>

text \<open>
  C8. An identifier file that holds the header line and no data row yields no boundary pair,
  for every target count \<open>k \<ge> 1\<close>, and the generator ends without an exception, whether
  or not the header line ends with a newline.
\<close>

theorem header_only_yields_nothing:
  "1 \<le> k \<Longrightarrow> records f = [header] \<Longrightarrow> iter_id_ranges f k = ([], None)"
  by (simp add: iter_id_ranges_def)

theorem header_only_yields_nothing_witness:
  "(1::int) \<le> 7 \<and> iter_id_ranges \<lparr>newlines = 1, records = [[''id'']]\<rparr> 7 = ([], None) \<and>
   iter_id_ranges \<lparr>newlines = 0, records = [[''id'']]\<rparr> 7 = ([], None)"
  using header_only_yields_nothing [of 7 "\<lparr>newlines = 1, records = [[''id'']]\<rparr>" "[''id'']"]
    header_only_yields_nothing [of 7 "\<lparr>newlines = 0, records = [[''id'']]\<rparr>" "[''id'']"]
  by simp

lemma item0_row_id: "r \<noteq> [] \<Longrightarrow> item0 r = Inr (row_id r)"
  by (cases r) auto

lemma iter_rows_partial:
  "\<forall>r \<in> set xs. r \<noteq> [] \<Longrightarrow> 0 \<le> j \<Longrightarrow> j + int (length xs) < c \<Longrightarrow>
   iter_rows c fo j l xs = iter_rows c (pick fo xs) (j + int (length xs)) (if xs = [] then l else Some (last xs)) []"
proof (induction xs arbitrary: fo j l)
  case Nil
  then show ?case by simp
next
  case (Cons x xs)
  then have x: "item0 x = Inr (row_id x)" by (simp add: item0_row_id)
  have ne: "j + 1 \<noteq> c" using Cons.prems by simp
  have ih: "iter_rows c fo' (j + 1) (Some x) xs =
      iter_rows c (pick fo' xs) (j + 1 + int (length xs)) (if xs = [] then Some x else Some (last xs)) []" for fo'
    using Cons.IH [of "j + 1" fo' "Some x"] Cons.prems by simp
  show ?case
    using ne x ih by (cases fo) (simp_all add: add.assoc del: iter_rows.simps(1))
qed

lemma truthy_Some: "truthy fo \<Longrightarrow> \<exists>f. fo = Some f"
  by (cases fo) simp_all

lemma pick_eq_None: "pick fo xs = None \<longleftrightarrow> fo = None \<and> xs = []"
  by (induction xs arbitrary: fo) (auto dest: truthy_Some)

lemma pick_Some: "xs \<noteq> [] \<Longrightarrow> \<exists>f. pick fo xs = Some f"
  using pick_eq_None [of fo xs] by (cases "pick fo xs") simp_all

lemma iter_rows_full:
  "\<forall>r \<in> set xs. r \<noteq> [] \<Longrightarrow> xs \<noteq> [] \<Longrightarrow> 0 \<le> j \<Longrightarrow> j + int (length xs) = c \<Longrightarrow>
   iter_rows c fo j l (xs @ rest) =
     yield (str_of (pick fo xs), row_id (last xs)) (iter_rows c None 0 (Some (last xs)) rest)"
proof (induction xs arbitrary: fo j l)
  case Nil
  then show ?case by simp
next
  case (Cons x xs)
  then have x: "item0 x = Inr (row_id x)" by (simp add: item0_row_id)
  show ?case
  proof (cases "xs = []")
    case True
    then have "j + 1 = c" using Cons.prems by simp
    then show ?thesis using True x by (cases fo) (simp_all add: yield_def)
  next
    case False
    then have ne: "j + 1 \<noteq> c" using Cons.prems by (cases xs) auto
    have ih: "iter_rows c fo' (j + 1) (Some x) (xs @ rest) =
       yield (str_of (pick fo' xs), row_id (last xs)) (iter_rows c None 0 (Some (last xs)) rest)" for fo'
      using Cons.IH [of "j + 1" fo' "Some x"] Cons.prems False by simp
    show ?thesis
    proof (cases fo)
      case None
      then show ?thesis using ne x ih [of "Some (row_id x)"] False by simp
    next
      case (Some f)
      then show ?thesis using ne x ih [of "Some f"] ih [of "Some (row_id x)"] False by simp
    qed
  qed
qed


lemma pick_truthy: "truthy fo \<Longrightarrow> pick fo xs = fo"
  by (induction xs) simp_all

lemma chunk_min_Cons:
  "chunk_min (x # xs) = (if row_id x \<noteq> [] then row_id x else chunk_min xs)"
  by (simp add: chunk_min_def)

lemma pick_chunk_min: "\<not> truthy fo \<Longrightarrow> xs \<noteq> [] \<Longrightarrow> pick fo xs = Some (chunk_min xs)"
proof (induction xs arbitrary: fo)
  case Nil
  then show ?case by simp
next
  case (Cons x xs)
  show ?case
  proof (cases "row_id x = []")
    case True
    show ?thesis
    proof (cases "xs = []")
      case True
      with \<open>row_id x = []\<close> Cons.prems show ?thesis by (simp add: chunk_min_def)
    next
      case False
      with True Cons.prems Cons.IH [of "Some (row_id x)"] show ?thesis
        by (simp add: chunk_min_Cons)
    qed
  next
    case False
    with Cons.prems show ?thesis by (simp add: chunk_min_Cons pick_truthy)
  qed
qed

lemma chunked_Nil: "chunked c [] = []"
  by (simp add: chunked.simps)

lemma chunked_step:
  "0 < c \<Longrightarrow> xs \<noteq> [] \<Longrightarrow> chunked c xs = take c xs # chunked c (drop c xs)"
  by (subst chunked.simps) simp

lemma iter_rows_chunked:
  "0 < c \<Longrightarrow> \<forall>r \<in> set rows. r \<noteq> [] \<Longrightarrow>
   iter_rows (int c) None 0 l rows = (concat (map (chunk_bounds c) (chunked c rows)), None)"
proof (induction c rows arbitrary: l rule: chunked.induct)
  case (1 c xs)
  show ?case
  proof (cases "xs = []")
    case True
    then show ?thesis by (simp add: chunked_Nil)
  next
    case False
    note ne = this
    show ?thesis
    proof (cases "length xs < c")
      case True
      have "iter_rows (int c) None 0 l xs =
            iter_rows (int c) (pick None xs) (0 + int (length xs)) (if xs = [] then l else Some (last xs)) []"
        using iter_rows_partial [of xs 0 "int c" None l] "1.prems" True by simp
      also have "\<dots> = (chunk_bounds c xs, None)"
        using ne True "1.prems" pick_chunk_min [of None xs] item0_row_id [of "last xs"]
        by (simp add: chunk_bounds_def yield_def)
      finally show ?thesis using ne True "1.prems"(1) by (simp add: chunked_step chunked_Nil)
    next
      case False
      define ys where "ys = take c xs"
      define zs where "zs = drop c xs"
      have xs: "xs = ys @ zs" by (simp add: ys_def zs_def)
      have len: "length ys = c" using False by (simp add: ys_def)
      have ysne: "ys \<noteq> []" using len "1.prems"(1) by auto
      have rows_ys: "\<forall>r \<in> set ys. r \<noteq> []" using "1.prems"(2) xs by auto
      have rows_zs: "\<forall>r \<in> set zs. r \<noteq> []" using "1.prems"(2) xs by auto
      have ih: "iter_rows (int c) None 0 (Some (last ys)) zs =
                (concat (map (chunk_bounds c) (chunked c zs)), None)"
        using "1.IH" [of "Some (last ys)"] ne "1.prems"(1) rows_zs by (simp add: zs_def)
      have "iter_rows (int c) None 0 l (ys @ zs) =
            yield (str_of (pick None ys), row_id (last ys)) (iter_rows (int c) None 0 (Some (last ys)) zs)"
        using iter_rows_full [of ys 0 "int c" None l zs] rows_ys ysne len by simp
      also have "\<dots> = ((chunk_min ys, row_id (last ys)) # concat (map (chunk_bounds c) (chunked c zs)), None)"
        using ih pick_chunk_min [of None ys] ysne by (simp add: yield_def)
      also have "\<dots> = (concat (map (chunk_bounds c) (chunked c xs)), None)"
        using chunked_step [of c xs] ne "1.prems"(1) len
        by (simp add: chunk_bounds_def ys_def [symmetric] zs_def [symmetric])
      finally show ?thesis using xs by simp
    qed
  qed
qed

lemma concat_chunked: "0 < c \<Longrightarrow> concat (chunked c xs) = xs"
proof (induction c xs rule: chunked.induct)
  case (1 c xs)
  then show ?case by (cases "xs = []") (simp_all add: chunked_Nil chunked_step)
qed

lemma chunked_bounds_len: "0 < c \<Longrightarrow> ch \<in> set (chunked c xs) \<Longrightarrow> ch \<noteq> [] \<and> length ch \<le> c"
proof (induction c xs rule: chunked.induct)
  case (1 c xs)
  then show ?case by (cases "xs = []") (auto simp: chunked_Nil chunked_step)
qed

lemma chunked_butlast_len:
  "0 < c \<Longrightarrow> ch \<in> set (butlast (chunked c xs)) \<Longrightarrow> length ch = c"
proof (induction c xs rule: chunked.induct)
  case (1 c xs)
  show ?case
  proof (cases "xs = []")
    case True
    with "1.prems" show ?thesis by (simp add: chunked_Nil)
  next
    case False
    show ?thesis
    proof (cases "chunked c (drop c xs) = []")
      case True
      with False "1.prems" show ?thesis by (simp add: chunked_step)
    next
      case ne: False
      then have "drop c xs \<noteq> []" by (auto simp: chunked_Nil)
      then have "length (take c xs) = c" by simp
      with False ne "1.prems" "1.IH" show ?thesis by (auto simp: chunked_step)
    qed
  qed
qed

lemma length_chunked: "0 < c \<Longrightarrow> length (chunked c xs) = (length xs + c - 1) div c"
proof (induction c xs rule: chunked.induct)
  case (1 c xs)
  show ?case
  proof (cases "xs = []")
    case True
    with "1.prems" show ?thesis by (simp add: chunked_Nil)
  next
    case False
    then have pos: "0 < length xs" by simp
    have ih: "length (chunked c (drop c xs)) = (length xs - c + c - 1) div c"
      using "1.IH" False "1.prems" by simp
    show ?thesis
    proof (cases "length xs \<le> c")
      case True
      then have "(length xs + c - 1) div c = 1"
      proof -
        obtain n where n: "length xs = Suc n" using pos by (cases "length xs") simp_all
        show ?thesis using True "1.prems" unfolding n by (intro div_nat_eqI) simp_all
      qed
      with True False "1.prems" show ?thesis by (simp add: chunked_step chunked_Nil)
    next
      case False
      then have "length xs + c - 1 = (length xs - c + c - 1) + c" by simp
      then have "(length xs + c - 1) div c = Suc ((length xs - c + c - 1) div c)"
        using "1.prems" by (metis div_add_self2 less_numeral_extra(3) Suc_eq_plus1)
      with ih \<open>xs \<noteq> []\<close> "1.prems" show ?thesis by (simp add: chunked_step)
    qed
  qed
qed

lemma chunked_nth:
  "0 < c \<Longrightarrow> i < length (chunked c xs) \<Longrightarrow> chunked c xs ! i = take c (drop (i * c) xs)"
proof (induction c xs arbitrary: i rule: chunked.induct)
  case (1 c xs)
  show ?case
  proof (cases "xs = []")
    case True
    with "1.prems" show ?thesis by (simp add: chunked_Nil)
  next
    case False
    show ?thesis
    proof (cases i)
      case 0
      with False "1.prems" show ?thesis by (simp add: chunked_step)
    next
      case (Suc i')
      then have "i' < length (chunked c (drop c xs))"
        using "1.prems" False by (simp add: chunked_step)
      then have "chunked c (drop c xs) ! i' = take c (drop (i' * c) (drop c xs))"
        using "1.IH" [of i'] False "1.prems" by simp
      with Suc False "1.prems" show ?thesis by (simp add: chunked_step add.commute)
    qed
  qed
qed

lemma has_id_iff: "has_id r \<longleftrightarrow> r \<noteq> [] \<and> row_id r \<noteq> []"
  by (cases r) simp_all

lemma chunk_bounds_has_id:
  "ch \<noteq> [] \<Longrightarrow> has_id (hd ch) \<Longrightarrow> chunk_bounds c ch = [chunk_ends ch]"
  by (cases ch) (simp_all add: chunk_bounds_def chunk_ends_def chunk_min_Cons has_id_iff)

lemma sorted_hd_le_last: "sorted ys \<Longrightarrow> ys \<noteq> [] \<Longrightarrow> hd ys \<le> last ys"
  by (cases ys) auto

lemma sorted_chunk_boundaries:
  "sorted (map row_id (concat chs)) \<Longrightarrow> \<forall>ch \<in> set chs. ch \<noteq> [] \<Longrightarrow>
   sorted (boundaries (map chunk_ends chs))"
proof (induction chs)
  case Nil
  then show ?case by (simp add: boundaries_def)
next
  case (Cons ch chs)
  have sub: "set (boundaries (map chunk_ends chs)) \<subseteq> set (map row_id (concat chs))"
  proof -
    have "\<And>xa. xa \<in> set chs \<Longrightarrow> hd xa \<in> set xa \<and> last xa \<in> set xa"
      using Cons.prems(2) by simp
    then show ?thesis by (fastforce simp: boundaries_def chunk_ends_def)
  qed
  have ch: "ch \<noteq> []" using Cons.prems(2) by simp
  have s1: "sorted (map row_id ch)" and s2: "sorted (map row_id (concat chs))"
    and le: "\<forall>x \<in> set (map row_id ch). \<forall>y \<in> set (map row_id (concat chs)). x \<le> y"
    using Cons.prems(1) by (auto simp: sorted_append)
  have hl: "row_id (hd ch) \<le> row_id (last ch)"
    using sorted_hd_le_last [OF s1] ch by (simp add: hd_map last_map)
  have mem: "row_id (hd ch) \<in> set (map row_id ch)" "row_id (last ch) \<in> set (map row_id ch)"
    using ch by auto
  have rest: "sorted (boundaries (map chunk_ends chs))" using Cons.IH s2 Cons.prems(2) by simp
  have above: "\<forall>y \<in> set (boundaries (map chunk_ends chs)). row_id (last ch) \<le> y"
    using le mem(2) sub by blast
  have eq: "boundaries (map chunk_ends (ch # chs)) =
            row_id (hd ch) # row_id (last ch) # boundaries (map chunk_ends chs)"
    by (simp add: boundaries_def chunk_ends_def)
  show ?case unfolding eq using rest above hl by auto
qed

lemma chunk_size_ceiling:
  assumes "1 \<le> k"
  shows "(int n + k - 1) div k = \<lceil>real n / real_of_int k\<rceil>"
proof -
  define a where "a = int n + k - 1"
  define m where "m = a div k"
  have k: "0 < k" using assms by simp
  have split: "a = m * k + a mod k" by (simp add: m_def)
  have lo: "m * k \<le> a" using split pos_mod_sign [OF k, of a] by linarith
  have hi: "a < m * k + k" using split pos_mod_bound [OF k, of a] by linarith
  have int1: "(m - 1) * k < int n" using lo by (simp add: a_def algebra_simps)
  have int2: "int n \<le> m * k" using hi by (simp add: a_def)
  have r1: "real_of_int (m - 1) * real_of_int k < real n"
    using int1 by (metis of_int_less_iff of_int_mult of_int_of_nat_eq)
  have r2: "real n \<le> real_of_int m * real_of_int k"
    using int2 by (metis of_int_le_iff of_int_mult of_int_of_nat_eq)
  have kr: "0 < real_of_int k" using k by simp
  have "real_of_int m - 1 < real n / real_of_int k"
    using r1 kr by (simp add: pos_less_divide_eq)
  moreover have "real n / real_of_int k \<le> real_of_int m"
    using r2 kr by (simp add: pos_divide_le_eq)
  ultimately have "\<lceil>real n / real_of_int k\<rceil> = m" by (intro ceiling_unique) simp_all
  then show ?thesis by (simp add: m_def a_def)
qed

lemma nominal_chunk_size_pos: "0 < n \<Longrightarrow> 1 \<le> k \<Longrightarrow> 0 < nominal_chunk_size n k"
  by (simp add: nominal_chunk_size_def)

lemma nominal_chunk_size_int:
  assumes "1 \<le> k"
  shows "int (nominal_chunk_size n k) = (int n + k - 1) div k"
proof -
  have "0 \<le> real n / real_of_int k" using assms by simp
  then have "0 \<le> \<lceil>real n / real_of_int k\<rceil>" by simp
  then show ?thesis using chunk_size_ceiling [OF assms, of n] by (simp add: nominal_chunk_size_def)
qed

lemma code_chunk_size_int:
  assumes "1 \<le> k" and "2 \<le> newlines f"
  shows "int (code_chunk_size f k) = (count_lines f + k - 1) div k" and "0 < code_chunk_size f k"
proof -
  have "k \<le> count_lines f + k - 1" using assms(2) by (simp add: count_lines_def)
  then have "0 < (count_lines f + k - 1) div k"
    using assms(1) by (simp add: pos_imp_zdiv_pos_iff)
  then show "int (code_chunk_size f k) = (count_lines f + k - 1) div k"
    and "0 < code_chunk_size f k"
    by (simp_all add: code_chunk_size_def)
qed

lemma code_chunk_size_terminated:
  assumes "newline_terminated f" and "records f = header # rows" and "1 \<le> k"
  shows "code_chunk_size f k = nominal_chunk_size (length rows) k"
proof -
  have "count_lines f = int (length rows)"
    using assms(1,2) by (simp add: newline_terminated_def count_lines_def)
  then have "int (code_chunk_size f k) = int (nominal_chunk_size (length rows) k)"
    using nominal_chunk_size_int [OF assms(3), of "length rows"]
    by (simp add: code_chunk_size_def)
  then show ?thesis by simp
qed

lemma iter_id_ranges_chunks:
  assumes "records f = header # rows" and "1 \<le> k" and "2 \<le> newlines f"
    and "\<forall>r \<in> set rows. r \<noteq> []"
  shows "iter_id_ranges f k =
           (concat (map (chunk_bounds (code_chunk_size f k)) (chunked (code_chunk_size f k) rows)),
            None)"
proof -
  note c = code_chunk_size_int [OF assms(2,3)]
  have "iter_id_ranges f k = iter_rows (int (code_chunk_size f k)) None 0 None rows"
    using assms(1,2) c(1) by (simp add: iter_id_ranges_def)
  then show ?thesis using iter_rows_chunked [OF c(2) assms(4)] by simp
qed

lemma chunked_subset: "0 < c \<Longrightarrow> ch \<in> set (chunked c xs) \<Longrightarrow> set ch \<subseteq> set xs"
  using concat_chunked [of c xs] by (metis UN_I set_concat subsetI)

lemma concat_map_single: "\<forall>x \<in> set xs. f x = [g x] \<Longrightarrow> concat (map f xs) = map g xs"
  by (induction xs) simp_all

lemma chunk_bounds_all_ids:
  assumes "0 < c" and "\<forall>r \<in> set rows. has_id r"
  shows "concat (map (chunk_bounds c) (chunked c rows)) = map chunk_ends (chunked c rows)"
proof -
  have "chunk_bounds c ch = [chunk_ends ch]" if "ch \<in> set (chunked c rows)" for ch
  proof -
    have ne: "ch \<noteq> []" using chunked_bounds_len [OF assms(1) that] by simp
    then have "hd ch \<in> set rows" using chunked_subset [OF assms(1) that] by auto
    then show ?thesis using ne assms(2) by (simp add: chunk_bounds_has_id)
  qed
  then show ?thesis by (intro concat_map_single) simp
qed

lemma iter_id_ranges_all_ids:
  assumes "records f = header # rows" and "1 \<le> k" and "2 \<le> newlines f"
    and "\<forall>r \<in> set rows. has_id r"
  shows "iter_id_ranges f k = (map chunk_ends (chunked (code_chunk_size f k) rows), None)"
proof -
  have ne: "\<forall>r \<in> set rows. r \<noteq> []" using assms(4) by (auto simp: has_id_iff)
  note c = code_chunk_size_int [OF assms(2,3)]
  show ?thesis
    using iter_id_ranges_chunks [OF assms(1,2,3) ne] chunk_bounds_all_ids [OF c(2) assms(4)] by simp
qed

text \<open>
  On a newline-terminated file whose data rows all carry a non-empty identifier the
  generator does partition the rows: it yields the first and last identifier of each chunk
  of the split into chunks of \<open>\<lceil>n / k\<rceil>\<close> rows.
\<close>

lemma terminated_file_partition:
  assumes "newline_terminated f" and "records f = header # rows" and "rows \<noteq> []"
    and "1 \<le> k" and "\<forall>r \<in> set rows. has_id r"
  shows "iter_id_ranges f k =
           (map chunk_ends (chunked (nominal_chunk_size (length rows) k) rows), None) \<and>
         concat (chunked (nominal_chunk_size (length rows) k) rows) = rows \<and>
         (\<forall>ch \<in> set (butlast (chunked (nominal_chunk_size (length rows) k) rows)).
            length ch = nominal_chunk_size (length rows) k) \<and>
         (sorted (map row_id rows) \<longrightarrow> sorted (boundaries (fst (iter_id_ranges f k))))"
proof -
  define c where "c = nominal_chunk_size (length rows) k"
  have pos: "0 < c" using assms(3,4) by (simp add: c_def nominal_chunk_size_pos)
  have two: "2 \<le> newlines f"
    using assms(1,2,3) by (cases rows) (simp_all add: newline_terminated_def)
  have run: "iter_id_ranges f k = (map chunk_ends (chunked c rows), None)"
    using iter_id_ranges_all_ids [OF assms(2,4) two assms(5)]
      code_chunk_size_terminated [OF assms(1,2,4)] by (simp add: c_def)
  have cover: "concat (chunked c rows) = rows" using pos by (rule concat_chunked)
  have full: "\<forall>ch \<in> set (butlast (chunked c rows)). length ch = c"
    using chunked_butlast_len [OF pos] by blast
  have srt: "sorted (boundaries (fst (iter_id_ranges f k)))" if "sorted (map row_id rows)"
  proof -
    have "\<forall>ch \<in> set (chunked c rows). ch \<noteq> []" using chunked_bounds_len [OF pos] by blast
    then show ?thesis using sorted_chunk_boundaries [of "chunked c rows"] that cover run by simp
  qed
  show ?thesis using run cover full srt unfolding c_def by blast
qed

text \<open>
  C1 (the code at two failing inputs). The claim holds on newline-terminated files with
  non-empty identifiers, and the code departs from it in two ways.
  \<^item> The start of a chunk is tracked by truthiness. For the sorted identifiers \<^verbatim>\<open>''\<close>,
    \<^verbatim>\<open>W1\<close>, \<^verbatim>\<open>W2\<close>, \<^verbatim>\<open>W3\<close> and target count 2 the chunks are
    \<^verbatim>\<open>['', W1]\<close> and \<^verbatim>\<open>[W2, W3]\<close>, and the generator yields \<^verbatim>\<open>(W1, W1)\<close> for
    the first chunk instead of its first and last identifier.
  \<^item> The rows are counted by their newlines. For the identifiers \<^verbatim>\<open>W1\<close> to
    \<^verbatim>\<open>W5\<close>, the last line without a newline, and target count 2, the generator uses
    chunks of 2 rows and yields three pairs, where \<open>\<lceil>5 / 2\<rceil> = 3\<close> gives the two
    chunks \<^verbatim>\<open>[W1, W2, W3]\<close> and \<^verbatim>\<open>[W4, W5]\<close>.
\<close>

theorem iter_id_ranges_breaks_partition:
  "sorted (map row_id [[''''], [''W1''], [''W2''], [''W3'']]) \<and>
   iter_id_ranges \<lparr>newlines = 5, records = [[''id''], [''''], [''W1''], [''W2''], [''W3'']]\<rparr> 2 =
     ([(''W1'', ''W1''), (''W2'', ''W3'')], None) \<and>
   map chunk_ends (chunked (nominal_chunk_size 4 2) [[''''], [''W1''], [''W2''], [''W3'']]) =
     [('''', ''W1''), (''W2'', ''W3'')] \<and>
   iter_id_ranges
     \<lparr>newlines = 5, records = [[''id''], [''W1''], [''W2''], [''W3''], [''W4''], [''W5'']]\<rparr> 2 =
     ([(''W1'', ''W2''), (''W3'', ''W4''), (''W5'', ''W5'')], None) \<and>
   map chunk_ends (chunked (nominal_chunk_size 5 2) [[''W1''], [''W2''], [''W3''], [''W4''], [''W5'']]) =
     [(''W1'', ''W3''), (''W4'', ''W5'')]"
proof -
  have c4: "nominal_chunk_size 4 2 = 2" and c5: "nominal_chunk_size 5 2 = 3"
    by (simp_all add: nominal_chunk_size_def)
  have ch4: "chunked 2 [[''''], [''W1''], [''W2''], [''W3'']] = [[[''''], [''W1'']], [[''W2''], [''W3'']]]"
    by (simp add: chunked_step chunked_Nil)
  have ch5: "chunked 3 [[''W1''], [''W2''], [''W3''], [''W4''], [''W5'']] =
               [[[''W1''], [''W2''], [''W3'']], [[''W4''], [''W5'']]]"
    by (simp add: chunked_step chunked_Nil)
  show ?thesis
    by (simp add: c4 c5 ch4 ch5 chunk_ends_def iter_id_ranges_def count_lines_def yield_def)
qed

lemma rows_le_chunk_times_k:
  assumes "1 \<le> k"
  shows "int n \<le> int (nominal_chunk_size n k) * k"
proof -
  have k: "0 < real_of_int k" using assms by simp
  have "0 \<le> real n / real_of_int k" using assms by simp
  then have nn: "0 \<le> \<lceil>real n / real_of_int k\<rceil>" by simp
  have "real n \<le> real_of_int \<lceil>real n / real_of_int k\<rceil> * real_of_int k"
    using pos_divide_le_eq [OF k, of "real n" "real_of_int \<lceil>real n / real_of_int k\<rceil>"]
      le_of_int_ceiling [of "real n / real_of_int k"] by blast
  then have "real_of_int (int n) \<le> real_of_int (\<lceil>real n / real_of_int k\<rceil> * k)" by simp
  then have "int n \<le> \<lceil>real n / real_of_int k\<rceil> * k" by (simp only: of_int_le_iff)
  then show ?thesis using nn by (simp add: nominal_chunk_size_def)
qed

lemma length_chunked_int:
  assumes "0 < c"
  shows "int (length (chunked c xs)) = (int (length xs) + int c - 1) div int c"
proof -
  have "int (length xs + c - 1) = int (length xs) + int c - 1" using assms by auto
  then show ?thesis using assms by (simp add: length_chunked zdiv_int)
qed

text \<open>
  On a newline-terminated file whose data rows all carry a non-empty identifier the number
  of pairs is \<open>\<lceil>n / \<lceil>n / k\<rceil>\<rceil>\<close>, which is at most \<open>k\<close>.
\<close>

lemma terminated_file_count:
  assumes "newline_terminated f" and "records f = header # rows" and "rows \<noteq> []"
    and "1 \<le> k" and "\<forall>r \<in> set rows. has_id r"
  shows "int (length (fst (iter_id_ranges f k))) =
           \<lceil>real (length rows) / real_of_int \<lceil>real (length rows) / real_of_int k\<rceil>\<rceil> \<and>
         int (length (fst (iter_id_ranges f k))) \<le> k"
proof -
  define n where "n = length rows"
  define c where "c = nominal_chunk_size n k"
  have pos: "0 < c" using assms(3,4) by (simp add: c_def n_def nominal_chunk_size_pos)
  have two: "2 \<le> newlines f"
    using assms(1,2,3) by (cases rows) (simp_all add: newline_terminated_def)
  have c_int: "int c = \<lceil>real n / real_of_int k\<rceil>"
    using nominal_chunk_size_int [OF assms(4), of n] chunk_size_ceiling [OF assms(4), of n]
    by (simp add: c_def)
  have len: "int (length (fst (iter_id_ranges f k))) = (int n + int c - 1) div int c"
    using iter_id_ranges_all_ids [OF assms(2,4) two assms(5)]
      code_chunk_size_terminated [OF assms(1,2,4)] length_chunked_int [OF pos, of rows]
    by (simp add: c_def n_def)
  have "(int n + int c - 1) div int c = \<lceil>real n / real_of_int (int c)\<rceil>"
    using chunk_size_ceiling [of "int c" n] pos by simp
  then have eq: "int (length (fst (iter_id_ranges f k))) =
                 \<lceil>real n / real_of_int \<lceil>real n / real_of_int k\<rceil>\<rceil>"
    using len c_int by simp
  have "int n \<le> int c * k" using rows_le_chunk_times_k [OF assms(4), of n] by (simp add: c_def)
  then have "int n + int c - 1 \<le> k * int c + (int c - 1)" by (simp add: mult.commute)
  then have "(int n + int c - 1) div int c \<le> (k * int c + (int c - 1)) div int c"
    using pos by (intro zdiv_mono1) simp_all
  also have "\<dots> = k" using pos by simp
  finally have "int (length (fst (iter_id_ranges f k))) \<le> k" using len by simp
  with eq show ?thesis by (simp add: n_def)
qed

text \<open>
  C10 (the code at two failing inputs). The claim holds on newline-terminated files with
  non-empty identifiers, and the code departs from it in two ways.
  \<^item> The remainder after the loop is yielded only when \<^verbatim>\<open>first_id\<close> is truthy. For
    three rows whose identifier is the empty string and target count 2 the generator yields
    one pair, where \<open>\<lceil>3 / \<lceil>3 / 2\<rceil>\<rceil> = 2\<close>.
  \<^item> The rows are counted by their newlines. For the identifiers \<^verbatim>\<open>W1\<close> to
    \<^verbatim>\<open>W5\<close>, the last line without a newline, and target count 2, the generator yields
    three pairs, which is more than the target count and not
    \<open>\<lceil>5 / \<lceil>5 / 2\<rceil>\<rceil> = 2\<close>.
\<close>

theorem iter_id_ranges_breaks_count:
  "sorted (map row_id [[''''], [''''], ['''']]) \<and>
   length (fst (iter_id_ranges
     \<lparr>newlines = 4, records = [[''id''], [''''], [''''], ['''']]\<rparr> 2)) = 1 \<and>
   \<lceil>real (3::nat) / real_of_int \<lceil>real (3::nat) / real_of_int 2\<rceil>\<rceil> = 2 \<and>
   length (fst (iter_id_ranges
     \<lparr>newlines = 5, records = [[''id''], [''W1''], [''W2''], [''W3''], [''W4''], [''W5'']]\<rparr> 2)) = 3 \<and>
   \<lceil>real (5::nat) / real_of_int \<lceil>real (5::nat) / real_of_int 2\<rceil>\<rceil> = 2"
  by (simp add: iter_id_ranges_def count_lines_def yield_def)

text \<open>
  C9 (as the code has it). The start of a chunk is tracked by truthiness, so for rows
  that all have a first field the generator yields, chunk by chunk of the chunk size it
  computes: for a chunk that holds a non-empty identifier, the pair of its first non-empty
  identifier and its last identifier; for a chunk of full size all of whose identifiers are
  empty, the pair of two empty strings; and for a final chunk shorter than the chunk size
  all of whose identifiers are empty, nothing. On a newline-terminated file the chunk size
  is \<open>\<lceil>n / k\<rceil>\<close>.
\<close>

theorem iter_id_ranges_truthiness:
  assumes "records f = header # rows" and "1 \<le> k" and "2 \<le> newlines f"
    and "\<forall>r \<in> set rows. r \<noteq> []"
  shows "iter_id_ranges f k =
           (concat (map (chunk_bounds (code_chunk_size f k))
                        (chunked (code_chunk_size f k) rows)), None) \<and>
         (\<forall>ch \<in> set (chunked (code_chunk_size f k) rows).
            case find (\<lambda>s. s \<noteq> []) (map row_id ch) of
              Some x \<Rightarrow> chunk_bounds (code_chunk_size f k) ch = [(x, row_id (last ch))]
            | None \<Rightarrow> chunk_bounds (code_chunk_size f k) ch =
                       (if length ch = code_chunk_size f k then [([], [])] else [])) \<and>
         (newline_terminated f \<longrightarrow> code_chunk_size f k = nominal_chunk_size (length rows) k)"
proof -
  define c where "c = code_chunk_size f k"
  have pos: "0 < c" using code_chunk_size_int(2) [OF assms(2,3)] by (simp add: c_def)
  have "case find (\<lambda>s. s \<noteq> []) (map row_id ch) of
          Some x \<Rightarrow> chunk_bounds c ch = [(x, row_id (last ch))]
        | None \<Rightarrow> chunk_bounds c ch = (if length ch = c then [([], [])] else [])"
    if "ch \<in> set (chunked c rows)" for ch
  proof (cases "find (\<lambda>s. s \<noteq> []) (map row_id ch)")
    case None
    then have all: "\<forall>r \<in> set ch. row_id r = []" by (auto simp: find_None_iff)
    have "ch \<noteq> []" using chunked_bounds_len [OF pos that] by simp
    then have "row_id (last ch) = []" using all by simp
    then show ?thesis using None by (simp add: chunk_bounds_def chunk_min_def)
  next
    case (Some x)
    then have "x \<noteq> []" by (auto simp: find_Some_iff)
    then show ?thesis using Some by (simp add: chunk_bounds_def chunk_min_def)
  qed
  moreover have "code_chunk_size f k = nominal_chunk_size (length rows) k" if "newline_terminated f"
    using code_chunk_size_terminated [OF that assms(1,2)] .
  ultimately show ?thesis using iter_id_ranges_chunks [OF assms] unfolding c_def by blast
qed

theorem iter_id_ranges_truthiness_witness:
  "iter_id_ranges \<lparr>newlines = 4, records = [[''id''], [''''], [''W1''], ['''']]\<rparr> 2 =
     ([(''W1'', ''W1'')], None) \<and>
   code_chunk_size \<lparr>newlines = 4, records = [[''id''], [''''], [''W1''], ['''']]\<rparr> 2 =
     nominal_chunk_size (length [[''''], [''W1''], ['''']]) 2"
proof -
  let ?f = "\<lparr>newlines = 4, records = [[''id''], [''''], [''W1''], ['''']]\<rparr>"
  have c: "code_chunk_size ?f 2 = 2" by (simp add: code_chunk_size_def count_lines_def)
  have ch: "chunked 2 [[''''], [''W1''], ['''']] = [[[''''], [''W1'']], [['''']]]"
    by (simp add: chunked_step chunked_Nil)
  show ?thesis
    using iter_id_ranges_truthiness [of ?f "[''id'']" "[[''''], [''W1''], ['''']]" 2]
    unfolding c ch by (simp add: chunk_bounds_def chunk_min_def newline_terminated_def)
qed

theorem full_chunk_of_empty_ids_is_yielded:
  "iter_id_ranges \<lparr>newlines = 3, records = [[''id''], [''''], ['''']]\<rparr> 1 = ([('''', '''')], None)"
  by (simp add: iter_id_ranges_def count_lines_def yield_def)

lemma ids95_eval: "ids95 = [''W01'', ''W02'', ''W03'', ''W04'', ''W05'', ''W06'', ''W07'', ''W08'', ''W09'', ''W10'',
  ''W11'', ''W12'', ''W13'', ''W14'', ''W15'', ''W16'', ''W17'', ''W18'', ''W19'', ''W20'',
  ''W21'', ''W22'', ''W23'', ''W24'', ''W25'', ''W26'', ''W27'', ''W28'', ''W29'', ''W30'',
  ''W31'', ''W32'', ''W33'', ''W34'', ''W35'', ''W36'', ''W37'', ''W38'', ''W39'', ''W40'',
  ''W41'', ''W42'', ''W43'', ''W44'', ''W45'', ''W46'', ''W47'', ''W48'', ''W49'', ''W50'',
  ''W51'', ''W52'', ''W53'', ''W54'', ''W55'', ''W56'', ''W57'', ''W58'', ''W59'', ''W60'',
  ''W61'', ''W62'', ''W63'', ''W64'', ''W65'', ''W66'', ''W67'', ''W68'', ''W69'', ''W70'',
  ''W71'', ''W72'', ''W73'', ''W74'', ''W75'', ''W76'', ''W77'', ''W78'', ''W79'', ''W80'',
  ''W81'', ''W82'', ''W83'', ''W84'', ''W85'', ''W86'', ''W87'', ''W88'', ''W89'', ''W90'',
  ''W91'', ''W92'', ''W93'', ''W94'', ''W95'']"
  by code_simp

lemma sorted_ids95: "sorted ids95"
  unfolding ids95_eval by (simp only: sorted2 sorted1) simp

lemma file95_run: "iter_id_ranges file95 10 =
  ([(''W01'', ''W10''), (''W11'', ''W20''), (''W21'', ''W30''), (''W31'', ''W40''), (''W41'', ''W50''),
    (''W51'', ''W60''), (''W61'', ''W70''), (''W71'', ''W80''), (''W81'', ''W90''), (''W91'', ''W95'')], None)"
  by (simp add: file95_def ids95_eval iter_id_ranges_def count_lines_def yield_def)

theorem last_range_of_95_covers_5:
  "length ids95 = 95 \<and> sorted ids95 \<and>
   length (fst (iter_id_ranges file95 10)) = 10 \<and>
   covered ids95 (fst (iter_id_ranges file95 10) ! 9) = 5"
proof -
  have "length ids95 = 95" by (simp add: ids95_def)
  moreover have "covered ids95 (''W91'', ''W95'') = 5" by (simp add: covered_def ids95_eval)
  ultimately show ?thesis using sorted_ids95 by (simp add: file95_run)
qed

lemma hd_take_drop: "0 < c \<Longrightarrow> j < length xs \<Longrightarrow> hd (take c (drop j xs)) = xs ! j"
  by (simp add: hd_drop_conv_nth)

lemma last_take_drop:
  "0 < c \<Longrightarrow> j < length xs \<Longrightarrow> last (take c (drop j xs)) = xs ! (min (j + c) (length xs) - 1)"
proof -
  assume c: "0 < c" and j: "j < length xs"
  let ?t = "take c (drop j xs)"
  have len: "length ?t = min c (length xs - j)" by simp
  then have ne: "?t \<noteq> []" using c j by auto
  have "last ?t = ?t ! (length ?t - 1)" using ne by (rule last_conv_nth)
  also have "\<dots> = xs ! (j + (length ?t - 1))" using c j by (simp add: min_def)
  also have "j + (length ?t - 1) = min (j + c) (length xs) - 1"
    unfolding len using c j by (auto simp: min_def)
  finally show ?thesis .
qed

text \<open>
  C3 (as the code has it). An identifier file of exactly 95 data rows with non-empty
  identifiers, one per line, whether or not the last line ends with a newline, and target
  count 10 yields exactly 10 pairs: the chunk size is 10, so the first nine pairs cover 10
  consecutive identifiers each (positions \<open>10 i\<close> to \<open>10 i + 9\<close>) and the tenth covers
  the remaining 5 (positions 90 to 94). The first pair starts at the first identifier and
  the last pair ends at the 95th.
\<close>

theorem iter_id_ranges_95_by_10:
  assumes "records f = header # rows" and "length rows = 95"
    and "\<forall>r \<in> set rows. has_id r"
    and "newlines f = 96 \<or> newlines f = 95"
  shows "iter_id_ranges f 10 =
           (map (\<lambda>i. (row_id (rows ! (10 * i)), row_id (rows ! (if i < 9 then 10 * i + 9 else 94))))
                [0..<10], None)"
proof -
  have two: "2 \<le> newlines f" using assms(4) by auto
  have c: "code_chunk_size f 10 = 10"
    using assms(4) by (auto simp: code_chunk_size_def count_lines_def)
  have run: "iter_id_ranges f 10 = (map chunk_ends (chunked 10 rows), None)"
    using iter_id_ranges_all_ids [OF assms(1) _ two assms(3), of 10] c by simp
  have len: "length (chunked 10 rows) = 10" using assms(2) by (simp add: length_chunked)
  have "map chunk_ends (chunked 10 rows) =
        map (\<lambda>i. (row_id (rows ! (10 * i)), row_id (rows ! (if i < 9 then 10 * i + 9 else 94)))) [0..<10]"
  proof (rule nth_equalityI)
    show "length (map chunk_ends (chunked 10 rows)) =
          length (map (\<lambda>i. (row_id (rows ! (10 * i)), row_id (rows ! (if i < 9 then 10 * i + 9 else 94)))) [0..<10])"
      using len by simp
  next
    fix i assume "i < length (map chunk_ends (chunked 10 rows))"
    then have i: "i < 10" using len by simp
    then have lt: "i * 10 < length rows" using assms(2) by simp
    have nth: "chunked 10 rows ! i = take 10 (drop (i * 10) rows)"
      using chunked_nth [of 10 i rows] i len by simp
    have h: "hd (take 10 (drop (i * 10) rows)) = rows ! (i * 10)"
      using hd_take_drop [OF _ lt, of 10] by simp
    have l: "last (take 10 (drop (i * 10) rows)) = rows ! (min (i * 10 + 10) 95 - 1)"
      using last_take_drop [OF _ lt, of 10] assms(2) by simp
    have idx: "min (i * 10 + 10) 95 - 1 = (if i < 9 then 10 * i + 9 else 94)"
      using i by (simp add: min_def)
    show "map chunk_ends (chunked 10 rows) ! i =
          map (\<lambda>i. (row_id (rows ! (10 * i)), row_id (rows ! (if i < 9 then 10 * i + 9 else 94)))) [0..<10] ! i"
      using i len nth h l idx by (simp add: chunk_ends_def mult.commute)
  qed
  then show ?thesis using run by simp
qed

theorem iter_id_ranges_95_by_10_witness:
  "length (map (\<lambda>i. [i]) ids95) = 95 \<and>
   iter_id_ranges file95 10 =
     (map (\<lambda>i. (ids95 ! (10 * i), ids95 ! (if i < 9 then 10 * i + 9 else 94))) [0..<10], None) \<and>
   iter_id_ranges (file95\<lparr>newlines := 95\<rparr>) 10 =
     (map (\<lambda>i. (ids95 ! (10 * i), ids95 ! (if i < 9 then 10 * i + 9 else 94))) [0..<10], None)"
proof -
  have len: "length (map (\<lambda>i. [i]) ids95) = 95" by (simp add: ids95_def)
  have ids: "\<forall>r \<in> set (map (\<lambda>i. [i]) ids95). has_id r" by (simp add: ids95_eval)
  have nth: "\<And>j. j < 95 \<Longrightarrow> row_id (map (\<lambda>i. [i]) ids95 ! j) = ids95 ! j"
    using len by simp
  have eq: "map (\<lambda>i. (row_id (map (\<lambda>i. [i]) ids95 ! (10 * i)),
                      row_id (map (\<lambda>i. [i]) ids95 ! (if i < 9 then 10 * i + 9 else 94)))) [0..<10] =
             map (\<lambda>i. (ids95 ! (10 * i), ids95 ! (if i < 9 then 10 * i + 9 else 94))) [0..<10]"
    using nth by (intro map_cong refl) auto
  have r1: "records file95 = [''id''] # map (\<lambda>i. [i]) ids95"
    and r2: "records (file95\<lparr>newlines := 95\<rparr>) = [''id''] # map (\<lambda>i. [i]) ids95"
    by (simp_all add: file95_def)
  have n1: "newlines file95 = 96 \<or> newlines file95 = 95"
    and n2: "newlines (file95\<lparr>newlines := 95\<rparr>) = 96 \<or> newlines (file95\<lparr>newlines := 95\<rparr>) = 95"
    by (simp_all add: file95_def)
  show ?thesis
    using iter_id_ranges_95_by_10 [OF r1 len ids n1] iter_id_ranges_95_by_10 [OF r2 len ids n2] eq len
    by simp
qed

subsection \<open>The gate and the driver\<close>

lemma limit_jobs_tier1:
  assumes "int (length (still_running w (fst s) job_queue)) < m - 150"
  shows "limit_jobs w s job_queue m =
           Some (still_running w (fst s) job_queue,
                 (fst s + length job_queue, snd s @ map CallSqueue job_queue @ [Sleep 5]))"
  using assms by (subst limit_jobs.simps) (simp add: poll_queue_def sleep_def)


lemma limit_jobs_releases:
  assumes "releases w s job_queue m"
  shows "\<exists>s'. limit_jobs w s job_queue m = Some (still_running w (fst s) job_queue, s')"
  using assms
  by (subst limit_jobs.simps)
     (auto simp: poll_queue_def sleep_def and_free_connections_exceed_def releases_def Let_def)



lemma limit_jobs_returns_below:
  assumes "limit_jobs w s job_queue m = Some r"
  shows "int (length (fst r)) < m"
proof (rule limit_jobs.raw_induct [where P = "\<lambda>w s q m r. int (length (fst r)) < m", OF _ assms],
       goal_cases)
  case (1 f w s q m r)
  from "1"(2) show ?case
    using "1"(1)
    by (auto simp: poll_queue_def and_free_connections_exceed_def Let_def
             split: prod.splits if_splits)
qed






lemma still_running_free_update:
  "still_running (w\<lparr>free_connections_exceed := f\<rparr>) t job_queue = still_running w t job_queue"
  by (induction job_queue arbitrary: t) simp_all

text \<open>
  C6. When the pruned live in-flight count is strictly below the ceiling minus 150, the gate
  returns in that round, after the queue probes and a sleep of 5 seconds, without a call of
  the database probe: the result is the same whatever the database probe would answer, and
  the trace gains no database call.
\<close>

theorem limit_jobs_tier1_without_database:
  assumes "int (length (still_running w (fst s) job_queue)) < m - 150"
  shows "limit_jobs (w\<lparr>free_connections_exceed := f\<rparr>) s job_queue m =
           Some (still_running w (fst s) job_queue,
                 (fst s + length job_queue, snd s @ map CallSqueue job_queue @ [Sleep 5])) \<and>
         limit_jobs (w\<lparr>free_connections_exceed := f\<rparr>) s job_queue m =
           limit_jobs (w\<lparr>free_connections_exceed := g\<rparr>) s job_queue m \<and>
         filter is_db_probe (snd s @ map CallSqueue job_queue @ [Sleep 5]) =
           filter is_db_probe (snd s)"
proof -
  have run: "limit_jobs (w\<lparr>free_connections_exceed := h\<rparr>) s job_queue m =
           Some (still_running w (fst s) job_queue,
                 (fst s + length job_queue, snd s @ map CallSqueue job_queue @ [Sleep 5]))" for h
    using limit_jobs_tier1 [of "w\<lparr>free_connections_exceed := h\<rparr>" s job_queue m] assms
    by (simp add: still_running_free_update)
  have "filter is_db_probe (map CallSqueue job_queue) = []"
    by (induction job_queue) (simp_all add: is_db_probe_def)
  then show ?thesis using run [of f] run [of g] by (simp add: is_db_probe_def)
qed

theorem limit_jobs_tier1_without_database_witness:
  "limit_jobs \<lparr>squeue = \<lambda>t job. True, free_connections_exceed = \<lambda>t n. False, sbatch = \<lambda>t p. Inr []\<rparr>
     (0, []) [code_points ''101''] 180 =
   Some ([code_points ''101''], (1, [CallSqueue (code_points ''101''), Sleep 5])) \<and>
   limit_jobs \<lparr>squeue = \<lambda>t job. True, free_connections_exceed = \<lambda>t n. False, sbatch = \<lambda>t p. Inr []\<rparr>
     (0, []) [code_points ''101''] 180 =
   limit_jobs \<lparr>squeue = \<lambda>t job. True, free_connections_exceed = \<lambda>t n. True, sbatch = \<lambda>t p. Inr []\<rparr>
     (0, []) [code_points ''101''] 180"
  using limit_jobs_tier1_without_database
    [of "\<lparr>squeue = \<lambda>t job. True, free_connections_exceed = \<lambda>t n. False, sbatch = \<lambda>t p. Inr []\<rparr>"
        "(0, [])" "[code_points ''101'']" 180 "\<lambda>t n. False" "\<lambda>t n. True"]
  by auto

lemma submit_loop_bound:
  "submit_loop w s idx ranges job_queue = Some (Inr job_queue', s') \<Longrightarrow>
   int (length job_queue) \<le> MAX_JOBS_RUNNING \<Longrightarrow> int (length job_queue') \<le> MAX_JOBS_RUNNING"
proof (induction ranges arbitrary: s idx job_queue)
  case Nil
  then show ?case by simp
next
  case (Cons r ranges)
  obtain min_id max_id where r: "r = (min_id, max_id)" by (cases r)
  show ?case
  proof (cases "idx < 5556")
    case True
    with Cons.prems r Cons.IH [of s "Suc idx" job_queue] show ?thesis by simp
  next
    case False
    let ?s1 = "(fst s, snd s @ [WriteScript (create_query_job idx)])"
    from Cons.prems(1) r False obtain q2 s2 where
      gate: "limit_jobs w ?s1 job_queue MAX_JOBS_RUNNING = Some (q2, s2)"
      by (auto simp: Let_def split: option.splits)
    from Cons.prems(1) r False gate obtain job_id where
      rest: "submit_loop w (Suc (fst s2), snd s2 @ [CallSbatch (create_query_job idx)]) (Suc idx)
               ranges (q2 @ [job_id]) = Some (Inr job_queue', s')"
      by (auto simp: Let_def split: sum.splits)
    have "int (length q2) < MAX_JOBS_RUNNING" using limit_jobs_returns_below [OF gate] by simp
    then have "int (length (q2 @ [job_id])) \<le> MAX_JOBS_RUNNING" by simp
    from Cons.IH [OF rest this] show ?thesis .
  qed
qed

text \<open>
  C7. The gate returns only with a pruned queue strictly shorter than the ceiling, so the
  queue is at most as long as the ceiling once the driver has appended the new handle; the
  queue the driver returns is within \<open>MAX_JOBS_RUNNING\<close>.
\<close>

theorem limit_jobs_admits_below_ceiling:
  "(limit_jobs w s job_queue m = Some (job_queue', s') \<longrightarrow>
      int (length job_queue') < m \<and> int (length (job_queue' @ [job_id])) \<le> m) \<and>
   (map_option fst (submit_loop w s0 idx ranges []) = Some (Inr job_ids) \<longrightarrow>
      int (length job_ids) \<le> MAX_JOBS_RUNNING)"
proof (intro conjI impI)
  assume gate: "limit_jobs w s job_queue m = Some (job_queue', s')"
  from limit_jobs_returns_below [OF gate]
  show "int (length job_queue') < m" and "int (length (job_queue' @ [job_id])) \<le> m" by simp_all
next
  assume "map_option fst (submit_loop w s0 idx ranges []) = Some (Inr job_ids)"
  then obtain s1 where "submit_loop w s0 idx ranges [] = Some (Inr job_ids, s1)" by auto
  from submit_loop_bound [OF this] show "int (length job_ids) \<le> MAX_JOBS_RUNNING"
    by (simp add: MAX_JOBS_RUNNING_def)
qed

lemma parse_sbatch_output:
  "parse_job_id (code_points ''Submitted batch job 103'') = Inr (code_points ''103'')"
  by (simp add: parse_job_id_def strip_def str_split_def is_space_def code_points_def)

theorem limit_jobs_admits_below_ceiling_witness:
  "limit_jobs \<lparr>squeue = \<lambda>t job. job = code_points ''101'', free_connections_exceed = \<lambda>t n. True,
               sbatch = \<lambda>t p. Inr (code_points ''Submitted batch job 103'')\<rparr> (0, [])
     [code_points ''101'', code_points ''102''] 180 =
     Some ([code_points ''101''],
           (2, [CallSqueue (code_points ''101''), CallSqueue (code_points ''102''), Sleep 5])) \<and>
   int (length ([code_points ''101''] @ [code_points ''103''])) \<le> 180 \<and>
   map_option fst
     (submit_loop \<lparr>squeue = \<lambda>t job. job = code_points ''101'', free_connections_exceed = \<lambda>t n. True,
                    sbatch = \<lambda>t p. Inr (code_points ''Submitted batch job 103'')\<rparr>
        (0, []) 5556 [(''W1'', ''W2'')] []) =
     Some (Inr [code_points ''103'']) \<and>
   int (length [code_points ''103'']) \<le> MAX_JOBS_RUNNING"
proof -
  let ?w = "\<lparr>squeue = \<lambda>t job. job = code_points ''101'', free_connections_exceed = \<lambda>t n. True,
              sbatch = \<lambda>t p. Inr (code_points ''Submitted batch job 103'')\<rparr>"
  have ne: "code_points ''102'' \<noteq> code_points ''101''" by (simp add: code_points_def)
  have gate: "limit_jobs ?w (0, []) [code_points ''101'', code_points ''102''] 180 =
                Some ([code_points ''101''],
                      (2, [CallSqueue (code_points ''101''), CallSqueue (code_points ''102''), Sleep 5]))"
    by (subst limit_jobs.simps) (simp add: poll_queue_def sleep_def ne)
  have run: "map_option fst (submit_loop ?w (0, []) 5556 [(''W1'', ''W2'')] []) =
               Some (Inr [code_points ''103''])"
    by (simp add: limit_jobs_tier1 MAX_JOBS_RUNNING_def parse_sbatch_output Let_def)
  show ?thesis
    using limit_jobs_admits_below_ceiling
      [of ?w "(0, [])" "[code_points ''101'', code_points ''102'']" 180 "[code_points ''101'']"
          "(2, [CallSqueue (code_points ''101''), CallSqueue (code_points ''102''), Sleep 5])"
          "code_points ''103''" "(0, [])" 5556 "[(''W1'', ''W2'')]" "[code_points ''103'']"]
      gate run
    by simp
qed

lemma split_from_eq_Nil:
  "split_from tok s = [] \<longleftrightarrow> tok = [] \<and> (\<forall>c \<in> set s. is_space c)"
  by (induction s arbitrary: tok) auto

lemma split_from_tokens:
  "h \<in> set (split_from tok s) \<Longrightarrow> \<forall>c \<in> set tok. \<not> is_space c \<Longrightarrow>
   h \<noteq> [] \<and> (\<forall>c \<in> set h. \<not> is_space c)"
proof (induction s arbitrary: tok)
  case Nil
  then show ?case by (auto split: if_splits)
next
  case (Cons c cs)
  show ?case
  proof (cases "is_space c")
    case True
    with Cons.prems Cons.IH [of "[]"] show ?thesis by (auto split: if_splits)
  next
    case False
    with Cons.prems Cons.IH [of "tok @ [c]"] show ?thesis by auto
  qed
qed

lemma dropWhile_keeps: "x \<in> set xs \<Longrightarrow> \<not> P x \<Longrightarrow> x \<in> set (dropWhile P xs)"
  by (induction xs) auto

lemma strip_blank: "(\<forall>c \<in> set (strip s). is_space c) \<longleftrightarrow> (\<forall>c \<in> set s. is_space c)"
proof
  assume all: "\<forall>c \<in> set (strip s). is_space c"
  show "\<forall>c \<in> set s. is_space c"
  proof (rule ccontr)
    assume "\<not> (\<forall>c \<in> set s. is_space c)"
    then obtain x where x: "x \<in> set s" "\<not> is_space x" by blast
    then have "x \<in> set (dropWhile is_space s)" by (simp add: dropWhile_keeps)
    then have "x \<in> set (rev (dropWhile is_space s))" by simp
    then have "x \<in> set (dropWhile is_space (rev (dropWhile is_space s)))"
      using x(2) by (rule dropWhile_keeps)
    then have "x \<in> set (strip s)" by (simp add: strip_def)
    with all x(2) show False by blast
  qed
next
  assume "\<forall>c \<in> set s. is_space c"
  then have d: "dropWhile is_space s = []" by simp
  show "\<forall>c \<in> set (strip s). is_space c" unfolding strip_def d by simp
qed

lemma parse_job_id_raises:
  "parse_job_id response = Inl e \<longleftrightarrow> e = IndexError \<and> (\<forall>c \<in> set response. is_space c)"
proof -
  have "str_split (strip response) = [] \<longleftrightarrow> (\<forall>c \<in> set response. is_space c)"
    by (simp add: str_split_def split_from_eq_Nil strip_blank)
  then show ?thesis by (auto simp: parse_job_id_def split: list.splits)
qed

lemma parse_job_id_token:
  assumes "parse_job_id response = Inr h"
  shows "h = last (str_split (strip response)) \<and> h \<noteq> [] \<and> (\<forall>c \<in> set h. \<not> is_space c)"
proof -
  from assms have ne: "str_split (strip response) \<noteq> []"
    and h: "h = last (str_split (strip response))"
    by (auto simp: parse_job_id_def split: list.splits)
  then have "h \<in> set (split_from [] (strip response))" by (simp add: str_split_def)
  then have "h \<noteq> [] \<and> (\<forall>c \<in> set h. \<not> is_space c)"
    using split_from_tokens [of h "[]" "strip response"] by simp
  with h show ?thesis by blast
qed

lemma still_running_absent: "\<forall>t. \<not> squeue w t h \<Longrightarrow> h \<notin> set (still_running w t job_queue)"
  by (induction job_queue arbitrary: t) auto

lemma limit_jobs_returns_pruned:
  assumes "limit_jobs w s job_queue m = Some r"
  shows "(\<forall>t. \<not> squeue w t h) \<longrightarrow> h \<notin> set (fst r)"
proof (rule limit_jobs.raw_induct
         [where P = "\<lambda>w s q m r. (\<forall>t. \<not> squeue w t h) \<longrightarrow> h \<notin> set (fst r)", OF _ assms],
       goal_cases)
  case (1 f w s q m r)
  from "1"(2) show ?case
    using "1"(1) still_running_absent [of w h]
    by (auto simp: poll_queue_def and_free_connections_exceed_def Let_def
             split: prod.splits if_splits)
qed

text \<open>
  C5 (as the code has it). Parsing the decoded submission response raises
  \<open>IndexError\<close> exactly when the response is empty or all whitespace, and the driver's run
  ends with that exception. Every other response is parsed without validation: the recorded
  handle is the last whitespace-delimited token. A recorded handle for which the queue probe
  never prints anything is absent from the queue the next gate call returns.
\<close>

theorem parse_job_id_unvalidated:
  "(parse_job_id response = Inl IndexError \<longleftrightarrow> (\<forall>c \<in> set response. is_space c)) \<and>
   (parse_job_id response = Inr h \<longrightarrow>
      h = last (str_split (strip response)) \<and> h \<noteq> [] \<and> (\<forall>c \<in> set h. \<not> is_space c)) \<and>
   ((\<forall>t. \<not> squeue w t h) \<and> limit_jobs w s (job_queue @ [h]) m = Some (job_queue', s') \<longrightarrow>
      h \<notin> set job_queue') \<and>
   (\<not> idx < 5556 \<and>
    limit_jobs w (fst s0, snd s0 @ [WriteScript (create_query_job idx)]) queue0 MAX_JOBS_RUNNING =
      Some (queue1, s1) \<and>
    sbatch w (fst s1) (create_query_job idx) = Inr stdout \<and>
    (\<forall>c \<in> set stdout. is_space c) \<longrightarrow>
      submit_loop w s0 idx ((min_id, max_id) # ranges) queue0 =
        Some (Inl IndexError, (Suc (fst s1), snd s1 @ [CallSbatch (create_query_job idx)])))"
proof (intro conjI impI)
  show "parse_job_id response = Inl IndexError \<longleftrightarrow> (\<forall>c \<in> set response. is_space c)"
    by (simp add: parse_job_id_raises)
next
  assume "parse_job_id response = Inr h"
  from parse_job_id_token [OF this]
  show "h = last (str_split (strip response))" and "h \<noteq> []" and "\<forall>c \<in> set h. \<not> is_space c"
    by blast+
next
  assume a: "(\<forall>t. \<not> squeue w t h) \<and> limit_jobs w s (job_queue @ [h]) m = Some (job_queue', s')"
  then show "h \<notin> set job_queue'"
    using limit_jobs_returns_pruned [of w s "job_queue @ [h]" m "(job_queue', s')" h] by simp
next
  assume a: "\<not> idx < 5556 \<and>
    limit_jobs w (fst s0, snd s0 @ [WriteScript (create_query_job idx)]) queue0 MAX_JOBS_RUNNING =
      Some (queue1, s1) \<and>
    sbatch w (fst s1) (create_query_job idx) = Inr stdout \<and>
    (\<forall>c \<in> set stdout. is_space c)"
  then have "parse_job_id stdout = Inl IndexError"
    by (simp add: parse_job_id_raises)
  with a show "submit_loop w s0 idx ((min_id, max_id) # ranges) queue0 =
        Some (Inl IndexError, (Suc (fst s1), snd s1 @ [CallSbatch (create_query_job idx)]))"
    by (simp add: Let_def)
qed

theorem parse_job_id_unvalidated_witness:
  "parse_job_id (code_points ''sbatch: job 7 rejected'') = Inr (code_points ''rejected'') \<and>
   parse_job_id [0x20, 0xA0, 0x85, 0x3000] = Inl IndexError \<and>
   limit_jobs \<lparr>squeue = \<lambda>t job. job = code_points ''101'', free_connections_exceed = \<lambda>t n. True,
               sbatch = \<lambda>t p. Inr [0x0A]\<rparr> (0, [])
     ([code_points ''101''] @ [code_points ''rejected'']) 180 =
     Some ([code_points ''101''],
           (2, [CallSqueue (code_points ''101''), CallSqueue (code_points ''rejected''), Sleep 5])) \<and>
   code_points ''rejected'' \<notin> set [code_points ''101''] \<and>
   submit_loop \<lparr>squeue = \<lambda>t job. job = code_points ''101'', free_connections_exceed = \<lambda>t n. True,
                 sbatch = \<lambda>t p. Inr [0x0A]\<rparr> (0, []) 5556 [(''W1'', ''W2'')] [] =
     Some (Inl IndexError, (1, [WriteScript (create_query_job 5556), Sleep 5,
                               CallSbatch (create_query_job 5556)]))"
proof -
  let ?w = "\<lparr>squeue = \<lambda>t job. job = code_points ''101'', free_connections_exceed = \<lambda>t n. True,
              sbatch = \<lambda>t p. Inr [0x0A]\<rparr>"
  have parse: "parse_job_id (code_points ''sbatch: job 7 rejected'') = Inr (code_points ''rejected'')"
    by (simp add: parse_job_id_def strip_def str_split_def is_space_def code_points_def)
  have blank: "\<forall>c \<in> set [0x20, 0xA0, 0x85, 0x3000]. is_space c" by (simp add: is_space_def)
  have nl: "\<forall>c \<in> set [0x0A]. is_space c" by (simp add: is_space_def)
  have ne: "code_points ''rejected'' \<noteq> code_points ''101''" by (simp add: code_points_def)
  have gate: "limit_jobs ?w (0, []) ([code_points ''101''] @ [code_points ''rejected'']) 180 =
                Some ([code_points ''101''],
                      (2, [CallSqueue (code_points ''101''), CallSqueue (code_points ''rejected''), Sleep 5]))"
    by (subst limit_jobs.simps) (simp add: poll_queue_def sleep_def ne)
  have gate0: "limit_jobs ?w (fst (0::nat, []), snd (0::nat, []) @ [WriteScript (create_query_job 5556)]) []
                 MAX_JOBS_RUNNING =
                Some ([], (0, [WriteScript (create_query_job 5556), Sleep 5]))"
    by (subst limit_jobs.simps) (simp add: poll_queue_def sleep_def MAX_JOBS_RUNNING_def)
  have sb: "sbatch ?w (fst (0::nat, [WriteScript (create_query_job 5556), Sleep 5])) (create_query_job 5556) =
              Inr [0x0A]"
    by simp
  note thm1 = parse_job_id_unvalidated
      [where response = "code_points ''sbatch: job 7 rejected''" and h = "code_points ''rejected''"
         and w = ?w and s = "(0, [])" and job_queue = "[code_points ''101'']" and m = 180
         and job_queue' = "[code_points ''101'']"
         and s' = "(2, [CallSqueue (code_points ''101''), CallSqueue (code_points ''rejected''), Sleep 5])"
         and idx = 5556 and ?s0.0 = "(0, [])" and ?queue0.0 = "[]" and ?queue1.0 = "[]"
         and ?s1.0 = "(0, [WriteScript (create_query_job 5556), Sleep 5])"
         and stdout = "[0x0A]"
         and min_id = "''W1''" and max_id = "''W2''" and ranges = "[]"]
  note thm2 = parse_job_id_unvalidated
      [where response = "[0x20, 0xA0, 0x85, 0x3000]" and idx = 0]
  have b: "parse_job_id [0x20, 0xA0, 0x85, 0x3000] = Inl IndexError"
    using thm2 blank by blast
  have ne': "code_points ''rejected'' \<notin> set [code_points ''101'']" using ne by simp
  have loop: "submit_loop ?w (0, []) 5556 [(''W1'', ''W2'')] [] =
     Some (Inl IndexError, (1, [WriteScript (create_query_job 5556), Sleep 5,
                               CallSbatch (create_query_job 5556)]))"
    using thm1 gate0 sb nl by simp
  show ?thesis using parse b gate ne' loop by blast
qed

theorem parse_job_id_empty_response_raises:
  "parse_job_id [] = Inl IndexError"
  by (simp add: parse_job_id_def strip_def str_split_def)

lemma submit_loop_skip:
  "idx + length skipped \<le> 5556 \<Longrightarrow>
   submit_loop w s idx (skipped @ ranges) job_queue =
   submit_loop w s (idx + length skipped) ranges job_queue"
proof (induction skipped arbitrary: idx)
  case Nil
  then show ?case by simp
next
  case (Cons r skipped)
  obtain min_id max_id where r: "r = (min_id, max_id)" by (cases r)
  from Cons.prems have "idx < 5556" by simp
  with Cons.IH [of "Suc idx"] Cons.prems r show ?case by simp
qed

lemma parse_sbatch_101:
  "parse_job_id (code_points ''Submitted batch job 101'') = Inr (code_points ''101'')"
  by (simp add: parse_job_id_def strip_def str_split_def is_space_def code_points_def)

lemma parse_sbatch_102:
  "parse_job_id (code_points ''Submitted batch job 102'') = Inr (code_points ''102'')"
  by (simp add: parse_job_id_def strip_def str_split_def is_space_def code_points_def)

lemma idle_cluster_two_submissions:
  "submit_loop idle_cluster (0, []) 5556 [r1, r2] [] =
     Some (Inr [code_points ''102''],
           (3, [WriteScript (create_query_job 5556), Sleep 5, CallSbatch (create_query_job 5556),
                WriteScript (create_query_job 5557), CallSqueue (code_points ''101''), Sleep 5,
                CallSbatch (create_query_job 5557)]))"
proof -
  obtain a b c d where r: "r1 = (a, b)" "r2 = (c, d)" by (cases r1, cases r2) auto
  have g1: "limit_jobs idle_cluster (0, [WriteScript (create_query_job 5556)]) [] MAX_JOBS_RUNNING =
              Some ([], (0, [WriteScript (create_query_job 5556), Sleep 5]))"
    using limit_jobs_tier1 [of idle_cluster "(0, [WriteScript (create_query_job 5556)])" "[]" MAX_JOBS_RUNNING]
    by (simp add: MAX_JOBS_RUNNING_def)
  let ?t2 = "[WriteScript (create_query_job 5556), Sleep 5, CallSbatch (create_query_job 5556),
              WriteScript (create_query_job 5557)]"
  have g2: "limit_jobs idle_cluster (Suc 0, ?t2) [code_points ''101''] MAX_JOBS_RUNNING =
              Some ([], (2, ?t2 @ [CallSqueue (code_points ''101''), Sleep 5]))"
    using limit_jobs_tier1 [of idle_cluster "(Suc 0, ?t2)" "[code_points ''101'']" MAX_JOBS_RUNNING]
    by (simp add: MAX_JOBS_RUNNING_def idle_cluster_def)
  have sb: "sbatch idle_cluster 0 p = Inr (code_points ''Submitted batch job 101'')"
           "sbatch idle_cluster 2 p = Inr (code_points ''Submitted batch job 102'')" for p
    by (simp_all add: idle_cluster_def)
  show ?thesis
    unfolding r by (simp add: Let_def g1 g2 sb parse_sbatch_101 parse_sbatch_102)
qed

lemma index5557_ranges:
  "\<exists>ranges. iter_id_ranges index5557 NUM_SUBGROUPS = (ranges, None) \<and> length ranges = 5557"
proof -
  let ?rows = "map (\<lambda>n. [CHR ''W'' # replicate (4 - length (decimal n)) CHR ''0'' @ decimal n]) [1..<5558]"
  have len: "length ?rows = 5557" by simp
  have ids: "\<forall>r \<in> set ?rows. has_id r" by auto
  have recs: "records index5557 = [''id''] # ?rows" by (simp add: index5557_def)
  have two: "2 \<le> newlines index5557" by (simp add: index5557_def)
  have c: "code_chunk_size index5557 NUM_SUBGROUPS = 1"
    by (simp add: code_chunk_size_def count_lines_def index5557_def NUM_SUBGROUPS_def)
  have "iter_id_ranges index5557 NUM_SUBGROUPS = (map chunk_ends (chunked 1 ?rows), None)"
    using iter_id_ranges_all_ids [OF recs _ two ids, of NUM_SUBGROUPS] c
    by (simp add: NUM_SUBGROUPS_def)
  moreover have "length (map chunk_ends (chunked 1 ?rows)) = 5557"
    using length_chunked [of 1 ?rows] unfolding len by simp
  ultimately show ?thesis by blast
qed

text \<open>
  C4 (the code at a failing input). With the index file of 5557 identifiers and a cluster
  on which every job finishes before the next poll, the driver submits two jobs, for the
  subgroups 5556 and 5557, and the scheduler hands out the handles \<^verbatim>\<open>101\<close> and
  \<^verbatim>\<open>102\<close>. The list the driver returns holds the handle \<^verbatim>\<open>102\<close> only, and the number
  reported as submitted is 1.
\<close>

theorem submit_subgroup_jobs_returns_pruned_queue:
  "map_option fst (submit_subgroup_jobs idle_cluster index5557 NUM_SUBGROUPS) = Some (Inr [code_points ''102'']) \<and>
   map_option (\<lambda>r. length (filter is_submission (snd (snd r))))
     (submit_subgroup_jobs idle_cluster index5557 NUM_SUBGROUPS) = Some 2 \<and>
   reported_count idle_cluster index5557 = Some (Inr 1)"
proof -
  obtain ranges where run: "iter_id_ranges index5557 NUM_SUBGROUPS = (ranges, None)"
    and len: "length ranges = 5557"
    using index5557_ranges by blast
  define skipped where "skipped = take 5555 ranges"
  define rest where "rest = drop 5555 ranges"
  have split: "ranges = skipped @ rest" by (simp add: skipped_def rest_def)
  have lens: "length skipped = 5555" "length rest = 2" using len by (simp_all add: skipped_def rest_def)
  from lens(2) obtain r1 r2 where rest: "rest = [r1, r2]"
    by (metis (no_types, opaque_lifting) One_nat_def Suc_1 length_0_conv length_Suc_conv)
  have "submit_loop idle_cluster (0, []) 1 ranges [] =
        submit_loop idle_cluster (0, []) (1 + length skipped) rest []"
    unfolding split using lens(1) by (intro submit_loop_skip) simp
  also have "\<dots> = submit_loop idle_cluster (0, []) 5556 [r1, r2] []"
    using lens(1) rest by simp
  finally have loop: "submit_loop idle_cluster (0, []) 1 ranges [] =
     Some (Inr [code_points ''102''],
           (3, [WriteScript (create_query_job 5556), Sleep 5, CallSbatch (create_query_job 5556),
                WriteScript (create_query_job 5557), CallSqueue (code_points ''101''), Sleep 5,
                CallSbatch (create_query_job 5557)]))"
    by (simp only: idle_cluster_two_submissions)
  have sub: "submit_subgroup_jobs idle_cluster index5557 NUM_SUBGROUPS =
     Some (Inr [code_points ''102''],
           (3, [WriteScript (create_query_job 5556), Sleep 5, CallSbatch (create_query_job 5556),
                WriteScript (create_query_job 5557), CallSqueue (code_points ''101''), Sleep 5,
                CallSbatch (create_query_job 5557)]))"
    by (simp add: submit_subgroup_jobs_def run loop [unfolded One_nat_def])
  show ?thesis by (simp add: reported_count_def sub is_submission_def)
qed

end
